theory Spec2Isabelle
  imports Main "HOL-Library.Word" "HOL-Library.AList"
begin

section \<open>Python values used by Server.py and utils\_db.py\<close>

text \<open>
  Exceptions are values. \<open>ModbusIOError\<close> stands for whatever exception the fieldbus
  client raises from a read; \<open>DatabaseError\<close> for whatever the database driver raises.
\<close>

datatype py_error =
    IndexError | KeyError | AttributeError | ValueError
  | ModbusIOError | DatabaseError | ResolutionError | EncodeError | ConnectionClosed
  | KeyboardInterrupt | CancelledError

text \<open>
  \<open>str(i)\<close> for a Python int, as the f-strings \<open>f"slave_{slave_id}"\<close> and
  \<open>f":{parsed.port}"\<close> print it: decimal, most significant digit first, a minus
  sign for a negative number.
\<close>

definition digit_char :: "nat \<Rightarrow> char" where
  "digit_char d = ''0123456789'' ! d"

fun digits :: "nat \<Rightarrow> string" where
  "digits n = (if n < 10 then [digit_char n] else digits (n div 10) @ [digit_char (n mod 10)])"

declare digits.simps [simp del]

definition str_int :: "int \<Rightarrow> string" where
  "str_int i = (if i < 0 then CHR ''-'' # digits (nat (- i)) else digits (nat i))"

text \<open>\<open>d[k]\<close> on a dict with string keys: the value, or KeyError.\<close>

definition dict_get :: "(string \<times> 'v) list \<Rightarrow> string \<Rightarrow> py_error + 'v" where
  "dict_get d k = (case map_of d k of None \<Rightarrow> Inl KeyError | Some v \<Rightarrow> Inr v)"

text \<open>\<open>xs[i]\<close> on a list with a non-negative index: the element, or IndexError.\<close>

definition list_get :: "'a list \<Rightarrow> nat \<Rightarrow> py_error + 'a" where
  "list_get xs i = (if i < length xs then Inr (xs ! i) else Inl IndexError)"

section \<open>The register map (Server.py, REGISTERS)\<close>

type_synonym word16 = "16 word"

definition REGISTERS :: "(string \<times> nat) list" where
  "REGISTERS =
     [(''name'', 0), (''is_active'', 1), (''mode'', 2),
      (''cycles_current'', 3), (''cycles_total'', 4), (''oee'', 5)]"

text \<open>
  A decoded block is the dict \<open>slave_data\<close> of read\_data: field name to register
  word, in the order of the dict literal.
\<close>

type_synonym slave_data = "(string \<times> word16) list"

text \<open>\<open>registers[REGISTERS[field]]\<close>\<close>

definition register_at :: "word16 list \<Rightarrow> string \<Rightarrow> py_error + word16" where
  "register_at registers field =
     (case dict_get REGISTERS field of
        Inl e \<Rightarrow> Inl e
      | Inr off \<Rightarrow> list_get registers off)"

text \<open>
  The dict literal of read\_data evaluates its six entries in order; the first lookup
  that raises ends the evaluation.
\<close>

fun build_dict :: "string list \<Rightarrow> word16 list \<Rightarrow> py_error + slave_data" where
  "build_dict [] registers = Inr []"
| "build_dict (f # fs) registers =
     (case register_at registers f of
        Inl e \<Rightarrow> Inl e
      | Inr w \<Rightarrow>
          (case build_dict fs registers of
             Inl e \<Rightarrow> Inl e
           | Inr d \<Rightarrow> Inr ((f, w) # d)))"

definition decode_registers :: "word16 list \<Rightarrow> py_error + slave_data" where
  "decode_registers registers =
     build_dict [''name'', ''is_active'', ''mode'',
                 ''cycles_current'', ''cycles_total'', ''oee''] registers"

section \<open>Observable effects of the poller\<close>

datatype level = INFO | WARNING | ERROR

text \<open>
  One constructor for each logging call a pass of the poll loop can reach, named
  after its place: the request announcement and the main-loop error of the entry
  point, the failed connection, the per-slave read error (warning), the per-slave
  data line and the per-slave exception line of read\_data.
\<close>

datatype message =
    Requesting
  | ConnectFailed
  | SlaveReadError int
  | SlaveData int slave_data
  | SlaveException int py_error
  | MainLoopError py_error

record read_request =
  address :: nat
  count :: nat
  slave :: int

text \<open>The parameter dict update\_robots hands to \<open>cursor.execute\<close>.\<close>

record robot_row =
  row_name :: word16
  row_is_active :: bool
  row_mode :: word16
  row_cycles_current :: word16
  row_cycles_total :: word16
  row_oee :: word16

type_synonym batch = "(string \<times> slave_data) list"

datatype event =
    Log level message
  | Connect bool
  | ReadHoldingRegisters read_request
  | UpdateRobots "batch option"
  | Execute robot_row
  | Commit
  | Sleep nat

section \<open>read\_data (Server.py)\<close>

text \<open>
  The controller is the environment: whether \<open>client.connect()\<close> succeeds, and what
  each read request meets: an exception, a response with \<open>isError()\<close> true, or a
  response carrying register words. A connection that cannot be established shows as
  \<open>client.connect()\<close> returning false, the case read\_data tests; creating the client
  and entering its \<open>with\<close> block are taken to succeed.
\<close>

datatype read_outcome = Raises | IsError | Response "word16 list"

record fieldbus =
  connect_ok :: bool
  respond :: "read_request \<Rightarrow> read_outcome"

definition slave_key :: "int \<Rightarrow> string" where
  "slave_key slave_id = ''slave_'' @ str_int slave_id"

text \<open>
  One iteration of the for loop: the events it causes, and the decoded dict when the
  iteration reaches the assignment to \<open>all_data\<close>.
\<close>

definition read_slave :: "fieldbus \<Rightarrow> int \<Rightarrow> event list \<times> slave_data option" where
  "read_slave bus slave_id =
     (let req = \<lparr>address = 0, count = length REGISTERS, slave = slave_id\<rparr>
      in case respond bus req of
           Raises \<Rightarrow>
             ([ReadHoldingRegisters req,
               Log ERROR (SlaveException slave_id ModbusIOError)], None)
         | IsError \<Rightarrow>
             ([ReadHoldingRegisters req, Log WARNING (SlaveReadError slave_id)], None)
         | Response registers \<Rightarrow>
             (case decode_registers registers of
                Inl e \<Rightarrow>
                  ([ReadHoldingRegisters req, Log ERROR (SlaveException slave_id e)], None)
              | Inr slave_data \<Rightarrow>
                  ([ReadHoldingRegisters req, Log INFO (SlaveData slave_id slave_data)],
                   Some slave_data)))"

text \<open>
  \<open>all_data[f"slave_{slave_id}"] = slave_data\<close>, reached only by an iteration that
  decoded a block. A dict assignment replaces the value of a key in place and appends
  a new key at the end, as \<open>AList.update\<close> does.
\<close>

definition store :: "int \<Rightarrow> slave_data option \<Rightarrow> batch \<Rightarrow> batch" where
  "store slave_id r all_data =
     (case r of
        None \<Rightarrow> all_data
      | Some slave_data \<Rightarrow> AList.update (slave_key slave_id) slave_data all_data)"

fun read_loop :: "fieldbus \<Rightarrow> int list \<Rightarrow> batch \<Rightarrow> event list \<times> batch" where
  "read_loop bus [] all_data = ([], all_data)"
| "read_loop bus (slave_id # rest) all_data =
     (case read_slave bus slave_id of
        (evs, r) \<Rightarrow>
          (case read_loop bus rest (store slave_id r all_data) of
             (evs', final) \<Rightarrow> (evs @ evs', final)))"

text \<open>
  \<open>slave_count\<close> is \<open>int(config['cntr']['slave_count'])\<close>, taken as already parsed;
  \<open>range(1, slave_count + 1)\<close> is \<open>[1..slave_count]\<close>, empty when the count is below 1.
  The result \<open>None\<close> is Python's None.
\<close>

definition read_data :: "fieldbus \<Rightarrow> int \<Rightarrow> event list \<times> batch option" where
  "read_data bus slave_count =
     (if \<not> connect_ok bus then ([Connect False, Log ERROR ConnectFailed], None)
      else case read_loop bus [1..slave_count] [] of
             (evs, all_data) \<Rightarrow> (Connect True # evs, Some all_data))"

section \<open>Database.update\_robots (utils\_db.py)\<close>

definition row_of :: "slave_data \<Rightarrow> py_error + robot_row" where
  "row_of data =
     (case dict_get data ''name'' of Inl e \<Rightarrow> Inl e | Inr n \<Rightarrow>
      case dict_get data ''is_active'' of Inl e \<Rightarrow> Inl e | Inr a \<Rightarrow>
      case dict_get data ''mode'' of Inl e \<Rightarrow> Inl e | Inr m \<Rightarrow>
      case dict_get data ''cycles_current'' of Inl e \<Rightarrow> Inl e | Inr cc \<Rightarrow>
      case dict_get data ''cycles_total'' of Inl e \<Rightarrow> Inl e | Inr ct \<Rightarrow>
      case dict_get data ''oee'' of Inl e \<Rightarrow> Inl e | Inr oe \<Rightarrow>
        Inr \<lparr>row_name = n, row_is_active = (a \<noteq> 0), row_mode = m,
             row_cycles_current = cc, row_cycles_total = ct, row_oee = oe\<rparr>)"

text \<open>
  The database is the environment: whether an upsert statement is accepted, and
  whether the commit is. \<open>Execute\<close> and \<open>Commit\<close> record the ones that went through.
\<close>

record database =
  execute_ok :: "robot_row \<Rightarrow> bool"
  commit_ok :: bool

fun execute_all :: "database \<Rightarrow> slave_data list \<Rightarrow> event list \<times> (py_error + unit)" where
  "execute_all db [] = ([], Inr ())"
| "execute_all db (data # rest) =
     (case row_of data of
        Inl e \<Rightarrow> ([], Inl e)
      | Inr row \<Rightarrow>
          if execute_ok db row
          then (case execute_all db rest of (evs, r) \<Rightarrow> (Execute row # evs, r))
          else ([], Inl DatabaseError))"

text \<open>
  \<open>robots_data.values()\<close> on None raises AttributeError inside the cursor block,
  before any statement.
\<close>

definition update_robots :: "database \<Rightarrow> batch option \<Rightarrow> event list \<times> (py_error + unit)" where
  "update_robots db robots_data =
     (case robots_data of
        None \<Rightarrow> ([UpdateRobots None], Inl AttributeError)
      | Some b \<Rightarrow>
          (case execute_all db (map snd b) of
             (evs, Inl e) \<Rightarrow> (UpdateRobots (Some b) # evs, Inl e)
           | (evs, Inr u) \<Rightarrow>
               if commit_ok db then (UpdateRobots (Some b) # evs @ [Commit], Inr ())
               else (UpdateRobots (Some b) # evs, Inl DatabaseError)))"

section \<open>One pass of the poll loop (Server.py, entry point)\<close>

text \<open>
  The body of \<open>while True\<close> with its \<open>except Exception\<close> handler: announce, read, hand
  the result to update\_robots whatever it is, sleep 5; any exception on the way is
  logged and followed by a sleep of 10. KeyboardInterrupt, which arrives from outside,
  ends the loop and is not part of a pass.
\<close>

definition poll_cycle :: "fieldbus \<Rightarrow> database \<Rightarrow> int \<Rightarrow> event list" where
  "poll_cycle bus db slave_count =
     (case read_data bus slave_count of
        (evs1, data) \<Rightarrow>
          (case update_robots db data of
             (evs2, Inr u) \<Rightarrow> Log INFO Requesting # evs1 @ evs2 @ [Sleep 5]
           | (evs2, Inl e) \<Rightarrow>
               Log INFO Requesting # evs1 @ evs2 @ [Log ERROR (MainLoopError e), Sleep 10]))"

text \<open>Projections of a trace.\<close>

fun read_requests :: "event list \<Rightarrow> read_request list" where
  "read_requests [] = []"
| "read_requests (ReadHoldingRegisters r # evs) = r # read_requests evs"
| "read_requests (_ # evs) = read_requests evs"

fun log_lines :: "event list \<Rightarrow> (level \<times> message) list" where
  "log_lines [] = []"
| "log_lines (Log l m # evs) = (l, m) # log_lines evs"
| "log_lines (_ # evs) = log_lines evs"

fun sink_calls :: "event list \<Rightarrow> batch option list" where
  "sink_calls [] = []"
| "sink_calls (UpdateRobots b # evs) = b # sink_calls evs"
| "sink_calls (_ # evs) = sink_calls evs"

fun sleeps :: "event list \<Rightarrow> nat list" where
  "sleeps [] = []"
| "sleeps (Sleep n # evs) = n # sleeps evs"
| "sleeps (_ # evs) = sleeps evs"

section \<open>The poll loop and the entry point (Server.py)\<close>

text \<open>
  \<open>while True\<close> never returns by itself; \<open>poll_loop\<close> gives the trace of its first
  passes, none of them interrupted, pass \<open>c\<close> meeting the controller \<open>buses c\<close>
  and the database \<open>dbs c\<close>.
\<close>

fun poll_loop :: "(nat \<Rightarrow> fieldbus) \<Rightarrow> (nat \<Rightarrow> database) \<Rightarrow> int \<Rightarrow> nat \<Rightarrow> nat \<Rightarrow> event list" where
  "poll_loop buses dbs slave_count c 0 = []"
| "poll_loop buses dbs slave_count c (Suc passes) =
     poll_cycle (buses c) (dbs c) slave_count @ poll_loop buses dbs slave_count (Suc c) passes"

text \<open>
  \<open>asyncio.run(coro)\<close> blocks its caller until the coroutine finishes. A coroutine
  that awaits a future is resumed at the first turn of the event loop at which the
  future is resolved; KeyboardInterrupt delivered at a turn ends the run with that
  exception. The result is the turn reached and, when the run ended within the turns
  observed, how it ended.
\<close>

fun run_until_complete ::
  "(nat \<Rightarrow> bool) \<Rightarrow> (nat \<Rightarrow> bool) \<Rightarrow> nat \<Rightarrow> nat \<Rightarrow> nat \<times> (py_error + unit) option" where
  "run_until_complete resolved interrupted t 0 = (t, None)"
| "run_until_complete resolved interrupted t (Suc turns) =
     (if interrupted t then (t, Some (Inl KeyboardInterrupt))
      else if resolved t then (t, Some (Inr ()))
      else run_until_complete resolved interrupted (Suc t) turns)"

text \<open>
  \<open>main()\<close>: inside the server context, \<open>await asyncio.Future()\<close>. The future is
  created by the await expression itself and nothing else holds it, so no turn
  resolves it.
\<close>

definition main_coroutine :: "(nat \<Rightarrow> bool) \<Rightarrow> nat \<Rightarrow> nat \<times> (py_error + unit) option" where
  "main_coroutine interrupted turns = run_until_complete (\<lambda>t. False) interrupted 0 turns"

datatype process_event = RelayServes nat | Poller event | Exits py_error

text \<open>
  The \<open>__main__\<close> block: \<open>asyncio.run(main())\<close>, then the poll loop. The call stands
  before the loop and outside its \<open>try\<close>, so an exception from it ends the process.
  The relay server serves during every turn of the run; the trace covers \<open>steps\<close>
  turns and passes in all.
\<close>

definition entry_point ::
  "(nat \<Rightarrow> bool) \<Rightarrow> (nat \<Rightarrow> fieldbus) \<Rightarrow> (nat \<Rightarrow> database) \<Rightarrow> int \<Rightarrow> nat \<Rightarrow> process_event list" where
  "entry_point interrupted buses dbs slave_count steps =
     (case main_coroutine interrupted steps of
        (t, None) \<Rightarrow> map RelayServes [0..<t]
      | (t, Some (Inl e)) \<Rightarrow> map RelayServes [0..<t] @ [Exits e]
      | (t, Some (Inr u)) \<Rightarrow>
          map RelayServes [0..<t] @ map Poller (poll_loop buses dbs slave_count 0 (steps - t)))"

fun poller_events :: "process_event list \<Rightarrow> event list" where
  "poller_events [] = []"
| "poller_events (Poller e # evs) = e # poller_events evs"
| "poller_events (_ # evs) = poller_events evs"

section \<open>The register encoder of the specification\<close>

text \<open>
  Modelled from the spec: the encoder of the round-trip property ("decoding a full
  N-word block via the Register Map and then re-encoding field-by-field"). Server.py
  has the decoding direction only. Each field of the Register Map, in its order, is
  written back at its offset into a block of \<open>len(REGISTERS)\<close> words.
\<close>

fun encode_fields :: "(string \<times> nat) list \<Rightarrow> slave_data \<Rightarrow> word16 list \<Rightarrow> py_error + word16 list" where
  "encode_fields [] d ws = Inr ws"
| "encode_fields ((f, off) # rest) d ws =
     (case dict_get d f of
        Inl e \<Rightarrow> Inl e
      | Inr w \<Rightarrow> if off < length ws then encode_fields rest d (ws[off := w]) else Inl IndexError)"

text \<open>
  Modelled from the spec: the re-encoding of a decoded block, every field of the
  Register Map written into a block that starts as \<open>len(REGISTERS)\<close> zero words.
\<close>

definition encode_registers_spec :: "slave_data \<Rightarrow> py_error + word16 list" where
  "encode_registers_spec d = encode_fields REGISTERS d (replicate (length REGISTERS) 0)"

section \<open>add\_auth\_to\_url (Server.py)\<close>

text \<open>
  The six components of a \<open>ParseResult\<close>, and what \<open>urlparse(url)\<close> hands to
  add\_auth\_to\_url: the components together with the two properties the function
  reads, \<open>hostname\<close> (None when the URI has no host) and \<open>port\<close> (None when the URI
  has none; reading it raises ValueError when the port is not a number in range).
  The parser belongs to the Python library and is a parameter here.
\<close>

record url_components =
  scheme :: string
  netloc :: string
  path :: string
  params :: string
  query :: string
  fragment :: string

record parsed_url = url_components +
  hostname :: "string option"
  port :: "py_error + int option"

text \<open>
  \<open>ParseResult.geturl()\<close> is \<open>urlunparse\<close> of the six components, as the library
  (CPython 3.11) assembles them.
\<close>

definition uses_netloc :: "string list" where
  "uses_netloc =
     ['''', ''ftp'', ''http'', ''gopher'', ''nntp'', ''telnet'', ''imap'', ''wais'', ''file'',
      ''mms'', ''https'', ''shttp'', ''snews'', ''prospero'', ''rtsp'', ''rtsps'', ''rtspu'',
      ''rsync'', ''svn'', ''svn+ssh'', ''sftp'', ''nfs'', ''git'', ''git+ssh'', ''ws'', ''wss'']"

definition urlunsplit :: "string \<Rightarrow> string \<Rightarrow> string \<Rightarrow> string \<Rightarrow> string \<Rightarrow> string" where
  "urlunsplit sch loc url qry frag =
     (let url1 =
            (if loc \<noteq> [] \<or> (sch \<noteq> [] \<and> sch \<in> set uses_netloc) \<or> take 2 url = ''//''
             then ''//'' @ loc @ (if url \<noteq> [] \<and> take 1 url \<noteq> ''/'' then ''/'' @ url else url)
             else url);
          url2 = (if sch \<noteq> [] then sch @ '':'' @ url1 else url1);
          url3 = (if qry \<noteq> [] then url2 @ ''?'' @ qry else url2)
      in if frag \<noteq> [] then url3 @ ''#'' @ frag else url3)"

definition geturl :: "url_components \<Rightarrow> string" where
  "geturl c =
     urlunsplit (scheme c) (netloc c)
       (if params c \<noteq> [] then path c @ '';'' @ params c else path c)
       (query c) (fragment c)"

text \<open>\<open>f"{parsed.hostname}"\<close>: the text of the host, or the text \<open>None\<close>.\<close>

definition str_hostname :: "string option \<Rightarrow> string" where
  "str_hostname h = (case h of None \<Rightarrow> ''None'' | Some host \<Rightarrow> host)"

text \<open>\<open>if parsed.port:\<close> holds for a port that is present and not 0.\<close>

definition truthy :: "int option \<Rightarrow> bool" where
  "truthy p = (case p of None \<Rightarrow> False | Some n \<Rightarrow> n \<noteq> 0)"

definition str_port :: "int option \<Rightarrow> string" where
  "str_port p = (case p of None \<Rightarrow> ''None'' | Some n \<Rightarrow> str_int n)"

definition auth_netloc :: "parsed_url \<Rightarrow> string \<Rightarrow> string \<Rightarrow> py_error + string" where
  "auth_netloc parsed user password =
     (let loc = user @ '':'' @ password @ ''@'' @ str_hostname (hostname parsed)
      in case port parsed of
           Inl e \<Rightarrow> Inl e
         | Inr p \<Rightarrow> Inr (if truthy p then loc @ '':'' @ str_port p else loc))"

definition add_auth_to_url :: "parsed_url \<Rightarrow> string \<Rightarrow> string \<Rightarrow> py_error + string" where
  "add_auth_to_url parsed user password =
     (case auth_netloc parsed user password of
        Inl e \<Rightarrow> Inl e
      | Inr loc \<Rightarrow>
          Inr (geturl \<lparr>scheme = scheme parsed, netloc = loc, path = path parsed,
                       params = params parsed, query = query parsed,
                       fragment = fragment parsed\<rparr>))"

section \<open>stream\_camera (Server.py)\<close>

text \<open>
  A viewer session. The environment: what the endpoint resolution yields (the URI the
  camera returned, as parsed, or the exception of a failed resolution), and for each
  turn of the loop what \<open>cap.read()\<close> returns, and whether the encoding, the send to
  the viewer and the pacing sleep raise.
\<close>

type_synonym frame = nat

record iteration =
  cap_read :: "py_error + bool \<times> frame"
  imencode :: "py_error + unit"
  send :: "py_error + unit"
  pace :: "py_error + unit"

datatype session_event = OpenCapture string | WsSend frame | PaceSleep | ReleaseCapture

text \<open>
  The \<open>while True\<close> of the session: None when the loop is still running after the
  turns observed, otherwise the events and how the loop was left (\<open>break\<close>, or an
  exception).
\<close>

fun stream_loop ::
  "(nat \<Rightarrow> iteration) \<Rightarrow> nat \<Rightarrow> nat \<Rightarrow> (session_event list \<times> (py_error + unit)) option" where
  "stream_loop env i 0 = None"
| "stream_loop env i (Suc turns) =
     (case cap_read (env i) of
        Inl e \<Rightarrow> Some ([], Inl e)
      | Inr (ret, frm) \<Rightarrow>
          if \<not> ret then Some ([], Inr ())
          else (case imencode (env i) of
                  Inl e \<Rightarrow> Some ([], Inl e)
                | Inr u \<Rightarrow>
                    (case send (env i) of
                       Inl e \<Rightarrow> Some ([], Inl e)
                     | Inr u' \<Rightarrow>
                         (case pace (env i) of
                            Inl e \<Rightarrow> Some ([WsSend frm], Inl e)
                          | Inr u'' \<Rightarrow>
                              (case stream_loop env (Suc i) turns of
                                 None \<Rightarrow> None
                               | Some (evs, r) \<Rightarrow> Some (WsSend frm # PaceSleep # evs, r))))))"

text \<open>
  The capture is created after the resolution and the rewrite, before the \<open>try\<close>;
  the \<open>finally\<close> releases it however the loop is left.
\<close>

definition stream_camera ::
  "(py_error + parsed_url) \<Rightarrow> string \<Rightarrow> string \<Rightarrow> (nat \<Rightarrow> iteration) \<Rightarrow> nat
     \<Rightarrow> (session_event list \<times> (py_error + unit)) option" where
  "stream_camera resolved user password env turns =
     (case resolved of
        Inl e \<Rightarrow> Some ([], Inl e)
      | Inr parsed \<Rightarrow>
          (case add_auth_to_url parsed user password of
             Inl e \<Rightarrow> Some ([], Inl e)
           | Inr url \<Rightarrow>
               (case stream_loop env 0 turns of
                  None \<Rightarrow> None
                | Some (evs, r) \<Rightarrow> Some (OpenCapture url # evs @ [ReleaseCapture], r))))"

text \<open>Whether a capture is open at the end of a trace.\<close>

fun capture_open :: "bool \<Rightarrow> session_event list \<Rightarrow> bool" where
  "capture_open b [] = b"
| "capture_open b (OpenCapture url # evs) = capture_open True evs"
| "capture_open b (ReleaseCapture # evs) = capture_open False evs"
| "capture_open b (_ # evs) = capture_open b evs"

text \<open>A turn of the session loop in which a frame is read, encoded, sent and paced.\<close>

definition delivers :: "iteration \<Rightarrow> bool" where
  "delivers it \<longleftrightarrow> (\<exists>frm. cap_read it = Inr (True, frm)) \<and> imencode it = Inr ()
     \<and> send it = Inr () \<and> pace it = Inr ()"

section \<open>Traces\<close>

lemma read_requests_append: "read_requests (xs @ ys) = read_requests xs @ read_requests ys"
  by (induction xs rule: read_requests.induct) auto

lemma log_lines_append: "log_lines (xs @ ys) = log_lines xs @ log_lines ys"
  by (induction xs rule: log_lines.induct) auto

lemma sink_calls_append: "sink_calls (xs @ ys) = sink_calls xs @ sink_calls ys"
  by (induction xs rule: sink_calls.induct) auto

lemma sleeps_append: "sleeps (xs @ ys) = sleeps xs @ sleeps ys"
  by (induction xs rule: sleeps.induct) auto

section \<open>Decimal keys\<close>

lemma digit_char_inj: "a < 10 \<Longrightarrow> b < 10 \<Longrightarrow> digit_char a = digit_char b \<Longrightarrow> a = b"
  unfolding digit_char_def
  by (simp add: nth_eq_iff_index_eq)

lemma digits_nonempty: "digits n \<noteq> []"
  by (subst digits.simps) simp

lemma digits_inj: "digits n = digits m \<Longrightarrow> n = m"
proof (induction n arbitrary: m rule: digits.induct)
  case (1 n)
  show ?case
  proof (cases "n < 10")
    case True
    show ?thesis
    proof (cases "m < 10")
      case mt: True
      from 1(2) True mt have "digit_char n = digit_char m"
        by (simp add: digits.simps[of n] digits.simps[of m])
      then show ?thesis using True mt digit_char_inj by blast
    next
      case mf: False
      from 1(2) True mf have "[digit_char n] = digits (m div 10) @ [digit_char (m mod 10)]"
        by (simp add: digits.simps[of n] digits.simps[of m])
      then have "digits (m div 10) = []" by simp
      then show ?thesis using digits_nonempty by blast
    qed
  next
    case False
    show ?thesis
    proof (cases "m < 10")
      case mt: True
      from 1(2) False mt have "digits (n div 10) @ [digit_char (n mod 10)] = [digit_char m]"
        by (simp add: digits.simps[of n] digits.simps[of m])
      then have "digits (n div 10) = []" by simp
      then show ?thesis using digits_nonempty by blast
    next
      case mf: False
      from 1(2) False mf
      have "digits (n div 10) @ [digit_char (n mod 10)] = digits (m div 10) @ [digit_char (m mod 10)]"
        by (simp add: digits.simps[of n] digits.simps[of m])
      then have "digits (n div 10) = digits (m div 10)"
        and c: "digit_char (n mod 10) = digit_char (m mod 10)"
        by simp_all
      then have d: "n div 10 = m div 10" using 1(1)[OF False] by blast
      have "n mod 10 = m mod 10" using c digit_char_inj[of "n mod 10" "m mod 10"] by simp
      then show ?thesis using d by (metis div_mult_mod_eq)
    qed
  qed
qed

lemma slave_key_inj: "0 \<le> i \<Longrightarrow> 0 \<le> j \<Longrightarrow> slave_key i = slave_key j \<Longrightarrow> i = j"
  using digits_inj[of "nat i" "nat j"] by (simp add: slave_key_def str_int_def)

section \<open>Decoding\<close>

lemma decode_short: "length ws < length REGISTERS \<Longrightarrow> decode_registers ws = Inl IndexError"
  by (auto simp: decode_registers_def register_at_def dict_get_def list_get_def REGISTERS_def
      split: sum.splits)

lemma decode_full:
  "length REGISTERS \<le> length ws \<Longrightarrow>
   decode_registers ws =
     Inr [(''name'', ws ! 0), (''is_active'', ws ! 1), (''mode'', ws ! 2),
          (''cycles_current'', ws ! 3), (''cycles_total'', ws ! 4), (''oee'', ws ! 5)]"
proof -
  assume "length REGISTERS \<le> length ws"
  then have "0 < length ws" "1 < length ws" "2 < length ws" "3 < length ws" "4 < length ws"
    "5 < length ws"
    by (auto simp: REGISTERS_def)
  then show ?thesis
    by (simp add: decode_registers_def register_at_def dict_get_def list_get_def REGISTERS_def)
qed

section \<open>The read loop\<close>

lemma read_requests_read_slave:
  "read_requests (fst (read_slave bus i)) = [\<lparr>address = 0, count = length REGISTERS, slave = i\<rparr>]"
  by (auto simp: read_slave_def Let_def split: read_outcome.splits sum.splits)

lemma sink_calls_read_slave: "sink_calls (fst (read_slave bus i)) = []"
  by (auto simp: read_slave_def Let_def split: read_outcome.splits sum.splits)

lemma sleeps_read_slave: "sleeps (fst (read_slave bus i)) = []"
  by (auto simp: read_slave_def Let_def split: read_outcome.splits sum.splits)

lemma fst_read_loop_Cons:
  "fst (read_loop bus (i # ids) all_data) =
     fst (read_slave bus i) @ fst (read_loop bus ids (store i (snd (read_slave bus i)) all_data))"
  by (simp split: prod.splits)

lemma snd_read_loop_Cons:
  "snd (read_loop bus (i # ids) all_data) =
     snd (read_loop bus ids (store i (snd (read_slave bus i)) all_data))"
  by (simp split: prod.splits)

declare read_loop.simps(2) [simp del]

lemma read_requests_read_loop:
  "read_requests (fst (read_loop bus ids all_data)) =
     map (\<lambda>i. \<lparr>address = 0, count = length REGISTERS, slave = i\<rparr>) ids"
proof (induction ids arbitrary: all_data)
  case Nil
  show ?case by simp
next
  case (Cons i ids)
  show ?case
    by (simp only: fst_read_loop_Cons read_requests_append read_requests_read_slave
          Cons.IH list.map append_Cons append_Nil)
qed

lemma sink_calls_read_loop: "sink_calls (fst (read_loop bus ids all_data)) = []"
proof (induction ids arbitrary: all_data)
  case Nil
  show ?case by simp
next
  case (Cons i ids)
  show ?case
    by (simp only: fst_read_loop_Cons sink_calls_append sink_calls_read_slave Cons.IH append_Nil)
qed

lemma sleeps_read_loop: "sleeps (fst (read_loop bus ids all_data)) = []"
proof (induction ids arbitrary: all_data)
  case Nil
  show ?case by simp
next
  case (Cons i ids)
  show ?case
    by (simp only: fst_read_loop_Cons sleeps_append sleeps_read_slave Cons.IH append_Nil)
qed

lemma log_lines_read_loop:
  "log_lines (fst (read_loop bus ids all_data)) =
     concat (map (\<lambda>i. log_lines (fst (read_slave bus i))) ids)"
proof (induction ids arbitrary: all_data)
  case Nil
  show ?case by simp
next
  case (Cons i ids)
  show ?case
    by (simp only: fst_read_loop_Cons log_lines_append Cons.IH list.map concat.simps)
qed

lemma update_fresh: "k \<notin> fst ` set al \<Longrightarrow> AList.update k v al = al @ [(k, v)]"
  by (induction al) auto

lemma snd_read_loop:
  "distinct ids \<Longrightarrow> \<forall>i\<in>set ids. 0 \<le> i \<Longrightarrow> fst ` set all_data \<inter> slave_key ` set ids = {} \<Longrightarrow>
   snd (read_loop bus ids all_data) =
     all_data @ List.map_filter (\<lambda>i. map_option (Pair (slave_key i)) (snd (read_slave bus i))) ids"
proof (induction ids arbitrary: all_data)
  case Nil
  show ?case by simp
next
  case (Cons i ids)
  have fresh: "slave_key i \<notin> fst ` set all_data" using Cons.prems(3) by auto
  have notin: "slave_key i \<notin> slave_key ` set ids"
  proof
    assume "slave_key i \<in> slave_key ` set ids"
    then obtain j where j: "j \<in> set ids" "slave_key i = slave_key j" by auto
    then have "i = j" using slave_key_inj[of i j] Cons.prems(2) by auto
    then show False using j(1) Cons.prems(1) by simp
  qed
  show ?case
  proof (cases "snd (read_slave bus i)")
    case None
    have "snd (read_loop bus ids all_data) =
       all_data @ List.map_filter (\<lambda>i. map_option (Pair (slave_key i)) (snd (read_slave bus i))) ids"
      using Cons.prems by (intro Cons.IH) auto
    then show ?thesis
      by (simp add: snd_read_loop_Cons None store_def)
  next
    case (Some d)
    let ?all = "all_data @ [(slave_key i, d)]"
    have st: "store i (Some d) all_data = ?all"
      by (simp add: store_def update_fresh[OF fresh])
    have disj: "fst ` set ?all \<inter> slave_key ` set ids = {}"
      using Cons.prems(3) notin by auto
    have "snd (read_loop bus ids ?all) =
       ?all @ List.map_filter (\<lambda>i. map_option (Pair (slave_key i)) (snd (read_slave bus i))) ids"
      using Cons.prems(1,2) disj by (intro Cons.IH) auto
    then show ?thesis
      by (simp add: snd_read_loop_Cons Some st)
  qed
qed

lemma read_data_not_connected:
  "\<not> connect_ok bus \<Longrightarrow> read_data bus n = ([Connect False, Log ERROR ConnectFailed], None)"
  by (simp add: read_data_def)

lemma read_data_connected:
  "connect_ok bus \<Longrightarrow>
   read_data bus n =
     (Connect True # fst (read_loop bus [1..n] []), Some (snd (read_loop bus [1..n] [])))"
  by (simp add: read_data_def split: prod.splits)

lemma snd_read_data_connected:
  "connect_ok bus \<Longrightarrow>
   snd (read_data bus n) =
     Some (List.map_filter (\<lambda>i. map_option (Pair (slave_key i)) (snd (read_slave bus i))) [1..n])"
proof -
  assume c: "connect_ok bus"
  have "snd (read_loop bus [1..n] []) =
      [] @ List.map_filter (\<lambda>i. map_option (Pair (slave_key i)) (snd (read_slave bus i))) [1..n]"
    by (rule snd_read_loop) auto
  then show ?thesis using c by (simp add: read_data_connected)
qed

lemma map_of_map_filter_key:
  assumes "distinct ids" "\<forall>i\<in>set ids. 0 \<le> i" "k \<in> set ids"
  shows "map_of (List.map_filter (\<lambda>i. map_option (Pair (slave_key i)) (f i)) ids) (slave_key k) = f k"
  using assms
proof (induction ids)
  case Nil
  then show ?case by simp
next
  case (Cons i ids)
  show ?case
  proof (cases "k = i")
    case True
    have notin: "slave_key i \<notin> fst ` set (List.map_filter (\<lambda>i. map_option (Pair (slave_key i)) (f i)) ids)"
    proof
      assume "slave_key i \<in> fst ` set (List.map_filter (\<lambda>i. map_option (Pair (slave_key i)) (f i)) ids)"
      then obtain j where j: "j \<in> set ids" "slave_key i = slave_key j"
        by (auto simp: List.map_filter_def)
      then have "i = j" using slave_key_inj[of i j] Cons.prems(2) by auto
      then show False using j(1) Cons.prems(1) by simp
    qed
    then have "map_of (List.map_filter (\<lambda>i. map_option (Pair (slave_key i)) (f i)) ids) (slave_key i) = None"
      by (simp add: map_of_eq_None_iff)
    then show ?thesis using True
      by (cases "f i") simp_all
  next
    case False
    then have kin: "k \<in> set ids" using Cons.prems(3) by simp
    have "slave_key k \<noteq> slave_key i"
      using slave_key_inj[of k i] Cons.prems(2,3) False by auto
    moreover have "map_of (List.map_filter (\<lambda>i. map_option (Pair (slave_key i)) (f i)) ids) (slave_key k) = f k"
      using Cons.prems(1,2) kin by (intro Cons.IH) auto
    ultimately show ?thesis
      by (cases "f i") simp_all
  qed
qed

lemma batch_lookup:
  assumes "connect_ok bus" "1 \<le> k" "k \<le> n" "snd (read_data bus n) = Some b"
  shows "map_of b (slave_key k) = snd (read_slave bus k)"
proof -
  have b: "b = List.map_filter (\<lambda>i. map_option (Pair (slave_key i)) (snd (read_slave bus i))) [1..n]"
    using snd_read_data_connected[OF assms(1), of n] assms(4) by simp
  show ?thesis
    unfolding b using assms(2,3) by (intro map_of_map_filter_key) auto
qed

lemma set_map_filter: "set (List.map_filter f xs) = {y. \<exists>x\<in>set xs. f x = Some y}"
  by (induction xs) (auto split: option.splits)

lemma batch_keys:
  assumes "connect_ok bus" "snd (read_data bus n) = Some b"
  shows "fst ` set b = slave_key ` {i. 1 \<le> i \<and> i \<le> n \<and> snd (read_slave bus i) \<noteq> None}"
proof -
  have b: "b = List.map_filter (\<lambda>i. map_option (Pair (slave_key i)) (snd (read_slave bus i))) [1..n]"
    using snd_read_data_connected[OF assms(1), of n] assms(2) by simp
  show ?thesis
    unfolding b set_map_filter by force
qed

lemma batch_empty_iff:
  assumes "connect_ok bus" "snd (read_data bus n) = Some b"
  shows "b = [] \<longleftrightarrow> (\<forall>i. 1 \<le> i \<and> i \<le> n \<longrightarrow> snd (read_slave bus i) = None)"
proof -
  have "b = [] \<longleftrightarrow> fst ` set b = {}" by simp
  also have "\<dots> \<longleftrightarrow> {i. 1 \<le> i \<and> i \<le> n \<and> snd (read_slave bus i) \<noteq> None} = {}"
    unfolding batch_keys[OF assms] by simp
  also have "\<dots> \<longleftrightarrow> (\<forall>i. 1 \<le> i \<and> i \<le> n \<longrightarrow> snd (read_slave bus i) = None)"
    by auto
  finally show ?thesis .
qed

section \<open>update\_robots\<close>

lemma execute_all_no_requests: "read_requests (fst (execute_all db ds)) = []"
  by (induction ds) (auto split: sum.splits prod.splits)

lemma read_requests_update_robots: "read_requests (fst (update_robots db data)) = []"
proof (cases data)
  case None
  then show ?thesis by (simp add: update_robots_def)
next
  case (Some b)
  obtain evs r where e: "execute_all db (map snd b) = (evs, r)" by force
  have "read_requests evs = []" using execute_all_no_requests[of db "map snd b"] e by simp
  then show ?thesis
    by (cases r) (simp_all add: update_robots_def Some e read_requests_append)
qed

lemma read_requests_poll_cycle:
  "read_requests (poll_cycle bus db n) = read_requests (fst (read_data bus n))"
proof -
  obtain evs1 data where r: "read_data bus n = (evs1, data)" by force
  obtain evs2 res where u: "update_robots db data = (evs2, res)" by force
  have "read_requests evs2 = []" using read_requests_update_robots[of db data] u by simp
  then show ?thesis
    by (cases res) (simp_all add: poll_cycle_def r u read_requests_append)
qed

lemma poll_cycle_not_connected:
  "\<not> connect_ok bus \<Longrightarrow>
   poll_cycle bus db n =
     [Log INFO Requesting, Connect False, Log ERROR ConnectFailed,
      UpdateRobots None, Log ERROR (MainLoopError AttributeError), Sleep 10]"
  by (simp add: poll_cycle_def read_data_not_connected update_robots_def)

lemma poll_cycle_empty_batch:
  "snd (read_data bus n) = Some [] \<Longrightarrow>
   poll_cycle bus db n =
     Log INFO Requesting # fst (read_data bus n) @
       UpdateRobots (Some []) #
       (if commit_ok db then [Commit, Sleep 5]
        else [Log ERROR (MainLoopError DatabaseError), Sleep 10])"
proof -
  assume a: "snd (read_data bus n) = Some []"
  obtain evs1 where r: "read_data bus n = (evs1, Some [])" using a by (cases "read_data bus n") simp
  show ?thesis
    by (cases "commit_ok db") (simp_all add: poll_cycle_def r update_robots_def)
qed

lemma sink_calls_read_data: "sink_calls (fst (read_data bus n)) = []"
  by (cases "connect_ok bus")
     (simp_all add: read_data_connected read_data_not_connected sink_calls_read_loop)

lemma sleeps_read_data: "sleeps (fst (read_data bus n)) = []"
  by (cases "connect_ok bus")
     (simp_all add: read_data_connected read_data_not_connected sleeps_read_loop)

lemma log_lines_read_slave:
  "log_lines (fst (read_slave bus i)) =
     (case respond bus \<lparr>address = 0, count = length REGISTERS, slave = i\<rparr> of
        Raises \<Rightarrow> [(ERROR, SlaveException i ModbusIOError)]
      | IsError \<Rightarrow> [(WARNING, SlaveReadError i)]
      | Response ws \<Rightarrow>
          (case decode_registers ws of
             Inl e \<Rightarrow> [(ERROR, SlaveException i e)]
           | Inr d \<Rightarrow> [(INFO, SlaveData i d)]))"
  by (simp add: read_slave_def Let_def split: read_outcome.splits sum.splits)

lemma snd_read_slave:
  "snd (read_slave bus i) =
     (case respond bus \<lparr>address = 0, count = length REGISTERS, slave = i\<rparr> of
        Raises \<Rightarrow> None
      | IsError \<Rightarrow> None
      | Response ws \<Rightarrow> (case decode_registers ws of Inl e \<Rightarrow> None | Inr d \<Rightarrow> Some d))"
  by (simp add: read_slave_def Let_def split: read_outcome.splits sum.splits)

lemma log_lines_read_data_connected:
  "connect_ok bus \<Longrightarrow>
   set (log_lines (fst (read_data bus n))) =
     (\<Union>i\<in>{1..n}. set (log_lines (fst (read_slave bus i))))"
  by (simp add: read_data_connected log_lines_read_loop)

lemma warning_in_slot_log:
  "(WARNING, SlaveReadError k) \<in> set (log_lines (fst (read_slave bus i))) \<Longrightarrow>
   i = k \<and> respond bus \<lparr>address = 0, count = length REGISTERS, slave = i\<rparr> = IsError"
  by (cases "respond bus \<lparr>address = 0, count = length REGISTERS, slave = i\<rparr>")
     (auto simp: log_lines_read_slave split: sum.splits)

lemma length6:
  "length (ws::'a list) = 6 \<Longrightarrow> \<exists>a b c d e f. ws = [a, b, c, d, e, f]"
  by (auto simp: length_Suc_conv eval_nat_numeral)

section \<open>From the decoded record to the upsert\<close>

lemma decode_Inr_full: "decode_registers ws = Inr d \<Longrightarrow> length REGISTERS \<le> length ws"
  using decode_short[of ws] by (cases "length ws < length REGISTERS") simp_all

lemma row_of_decoded:
  "decode_registers ws = Inr d \<Longrightarrow>
   row_of d =
     Inr \<lparr>row_name = ws ! 0, row_is_active = (ws ! 1 \<noteq> 0), row_mode = ws ! 2,
          row_cycles_current = ws ! 3, row_cycles_total = ws ! 4, row_oee = ws ! 5\<rparr>"
  using decode_full[OF decode_Inr_full, of ws d]
  by (auto simp: row_of_def dict_get_def)

lemma read_slave_Some_decoded:
  "snd (read_slave bus i) = Some d \<Longrightarrow> \<exists>ws. decode_registers ws = Inr d"
  by (auto simp: snd_read_slave split: read_outcome.splits sum.splits)

lemma batch_values_decoded:
  assumes "connect_ok bus" "snd (read_data bus n) = Some b" "d \<in> snd ` set b"
  shows "\<exists>ws. decode_registers ws = Inr d"
proof -
  have b: "b = List.map_filter (\<lambda>i. map_option (Pair (slave_key i)) (snd (read_slave bus i))) [1..n]"
    using snd_read_data_connected[OF assms(1), of n] assms(2) by simp
  from assms(3) obtain i where "snd (read_slave bus i) = Some d"
    unfolding b set_map_filter by auto
  then show ?thesis by (rule read_slave_Some_decoded)
qed

lemma execute_all_accepting:
  "\<forall>r. execute_ok db r \<Longrightarrow> \<forall>d\<in>set ds. \<exists>row. row_of d = Inr row \<Longrightarrow>
   d \<in> set ds \<Longrightarrow> row_of d = Inr row \<Longrightarrow> Execute row \<in> set (fst (execute_all db ds))"
proof (induction ds)
  case Nil
  then show ?case by simp
next
  case (Cons a ds)
  obtain ra where ra: "row_of a = Inr ra" using Cons.prems(2) by auto
  obtain evs r where e: "execute_all db ds = (evs, r)" by force
  have f: "fst (execute_all db (a # ds)) = Execute ra # evs"
    using Cons.prems(1) by (simp add: ra e)
  show ?case
  proof (cases "d = a")
    case True
    then show ?thesis unfolding f using ra Cons.prems(4) by simp
  next
    case False
    then have "Execute row \<in> set (fst (execute_all db ds))"
      using Cons.prems by (intro Cons.IH) auto
    then show ?thesis unfolding f using e by simp
  qed
qed

lemma update_robots_events:
  "set (fst (update_robots db (Some b))) \<supseteq>
     insert (UpdateRobots (Some b)) (set (fst (execute_all db (map snd b))))"
proof -
  obtain evs r where e: "execute_all db (map snd b) = (evs, r)" by force
  show ?thesis by (cases r) (auto simp: update_robots_def e)
qed

lemma poll_cycle_events:
  "set (fst (update_robots db (snd (read_data bus n)))) \<subseteq> set (poll_cycle bus db n)"
proof -
  obtain evs1 data where r: "read_data bus n = (evs1, data)" by force
  obtain evs2 res where u: "update_robots db data = (evs2, res)" by force
  show ?thesis by (cases res) (auto simp: poll_cycle_def r u)
qed

section \<open>The entry point\<close>

lemma run_until_complete_pending:
  "run_until_complete (\<lambda>t. False) interrupted t turns \<noteq> (t', Some (Inr u))"
  by (induction turns arbitrary: t) auto

lemma run_until_complete_undisturbed:
  "run_until_complete (\<lambda>t. False) (\<lambda>t. False) t turns = (t + turns, None)"
  by (induction turns arbitrary: t) auto

lemma poller_events_relay: "poller_events (map RelayServes ts) = []"
  by (induction ts) auto

lemma poller_events_append: "poller_events (xs @ ys) = poller_events xs @ poller_events ys"
  by (induction xs rule: poller_events.induct) auto

section \<open>The endpoint rewrite and the viewer session\<close>

lemma add_auth_to_url_components:
  "hostname parsed = Some host \<Longrightarrow> port parsed = Inr p \<Longrightarrow> p \<noteq> Some 0 \<Longrightarrow>
   add_auth_to_url parsed user password =
     Inr (geturl \<lparr>scheme = scheme parsed,
                  netloc = user @ '':'' @ password @ ''@'' @ host @
                    (case p of None \<Rightarrow> [] | Some n \<Rightarrow> '':'' @ str_int n),
                  path = path parsed, params = params parsed, query = query parsed,
                  fragment = fragment parsed\<rparr>)"
  by (cases p)
     (simp_all add: add_auth_to_url_def auth_netloc_def str_hostname_def truthy_def str_port_def)

lemma capture_open_append:
  "capture_open b (xs @ ys) = capture_open (capture_open b xs) ys"
  by (induction b xs rule: capture_open.induct) auto

lemma stream_loop_keeps_capture:
  "stream_loop env i turns = Some (evs, r) \<Longrightarrow> capture_open b evs = b"
proof (induction turns arbitrary: i evs)
  case 0
  then show ?case by simp
next
  case (Suc turns)
  then show ?case
    by (auto split: sum.splits prod.splits if_splits option.splits)
qed

lemma stream_camera_releases:
  "stream_camera resolved user password env turns = Some (evs, r) \<Longrightarrow> \<not> capture_open False evs"
  by (auto simp: stream_camera_def capture_open_append stream_loop_keeps_capture
      split: sum.splits option.splits prod.splits)

lemma stream_loop_read_fails:
  "\<forall>j. i \<le> j \<and> j < n \<longrightarrow> delivers (env j) \<Longrightarrow> cap_read (env n) = Inr (False, frm0) \<Longrightarrow>
   i \<le> n \<Longrightarrow> n - i < turns \<Longrightarrow> \<exists>evs. stream_loop env i turns = Some (evs, Inr ())"
proof (induction turns arbitrary: i)
  case 0
  then show ?case by simp
next
  case (Suc turns)
  show ?case
  proof (cases "i = n")
    case True
    then show ?thesis using Suc.prems(2) by simp
  next
    case False
    then have lt: "i < n" using Suc.prems(3) by simp
    then have d: "delivers (env i)" using Suc.prems(1) by simp
    have "\<exists>evs. stream_loop env (Suc i) turns = Some (evs, Inr ())"
      using Suc.prems lt by (intro Suc.IH) auto
    then show ?thesis using d by (auto simp: delivers_def)
  qed
qed

lemma stream_camera_ends_released:
  "stream_camera resolved user password env turns = Some (evs, r) \<Longrightarrow>
   evs \<noteq> [] \<Longrightarrow> (\<exists>url. hd evs = OpenCapture url) \<and> last evs = ReleaseCapture"
  by (auto simp: stream_camera_def split: sum.splits option.splits prod.splits)

section \<open>Claims\<close>

text \<open>
  C1, the code on every run: whatever the controller, the database and the moment of
  an interrupt, and however long the process is observed, the trace of the entry
  point holds no event of the poller. \<open>asyncio.run(main())\<close> does not return while
  the relay server serves, and an interrupt ends the process before the poll loop.
  With no interrupt the trace of any number of steps is the relay server serving at
  each of them, and nothing else.
\<close>

theorem entry_point_never_polls:
  "poller_events (entry_point interrupted buses dbs slave_count steps) = []
   \<and> entry_point (\<lambda>t. False) buses dbs slave_count steps = map RelayServes [0..<steps]"
proof
  obtain t r where m: "main_coroutine interrupted steps = (t, r)" by force
  show "poller_events (entry_point interrupted buses dbs slave_count steps) = []"
  proof (cases r)
    case None
    then show ?thesis by (simp add: entry_point_def m poller_events_relay)
  next
    case (Some res)
    show ?thesis
    proof (cases res)
      case (Inl e)
      then show ?thesis
        by (simp add: entry_point_def m Some poller_events_append poller_events_relay)
    next
      case (Inr u)
      then have False
        using m Some run_until_complete_pending[of interrupted 0 steps t u]
        by (simp add: main_coroutine_def)
      then show ?thesis ..
    qed
  qed
next
  show "entry_point (\<lambda>t. False) buses dbs slave_count steps = map RelayServes [0..<steps]"
    by (simp add: entry_point_def main_coroutine_def run_until_complete_undisturbed)
qed

text \<open>
  C2, as the specification states it: in a pass that produced no telemetry record the
  poller does not call the persistence sink and logs that no data was available. It
  fails: with one slave whose read reports an error the batch is empty, update\_robots
  is still called, with the empty batch, and the log of the pass holds the request
  announcement and the warning of that slave and nothing more.
\<close>

theorem empty_batch_skips_sink_counterexample:
  "snd (read_data \<lparr>connect_ok = True, respond = (\<lambda>r. IsError)\<rparr> 1) = Some []
   \<and> sink_calls (poll_cycle \<lparr>connect_ok = True, respond = (\<lambda>r. IsError)\<rparr>
                    \<lparr>execute_ok = (\<lambda>r. True), commit_ok = True\<rparr> 1) = [Some []]
   \<and> log_lines (poll_cycle \<lparr>connect_ok = True, respond = (\<lambda>r. IsError)\<rparr>
                    \<lparr>execute_ok = (\<lambda>r. True), commit_ok = True\<rparr> 1) =
       [(INFO, Requesting), (WARNING, SlaveReadError 1)]"
  by (simp add: poll_cycle_def read_data_def read_loop.simps(2) read_slave_def store_def
      update_robots_def upto.simps)

text \<open>
  C2, amended: in every pass for which read\_data returns an empty batch, the poller
  calls update\_robots once, with the empty batch; no statement is executed; when the
  database accepts the commit the pass commits and sleeps 5, otherwise it logs the
  main-loop error and sleeps 10. The log of the pass holds the request announcement,
  the lines of read\_data and that error if any: no line about missing data.
\<close>

theorem empty_batch_reaches_sink:
  "snd (read_data bus slave_count) = Some [] \<Longrightarrow>
   poll_cycle bus db slave_count =
     Log INFO Requesting # fst (read_data bus slave_count) @
       UpdateRobots (Some []) #
       (if commit_ok db then [Commit, Sleep 5]
        else [Log ERROR (MainLoopError DatabaseError), Sleep 10])
   \<and> sink_calls (poll_cycle bus db slave_count) = [Some []]
   \<and> log_lines (poll_cycle bus db slave_count) =
       (INFO, Requesting) # log_lines (fst (read_data bus slave_count)) @
       (if commit_ok db then [] else [(ERROR, MainLoopError DatabaseError)])"
  by (simp add: poll_cycle_empty_batch sink_calls_append sink_calls_read_data log_lines_append)

theorem empty_batch_reaches_sink_witness:
  "snd (read_data \<lparr>connect_ok = True, respond = (\<lambda>r. Response [1, 2, 3])\<rparr> 2) = Some []
   \<and> poll_cycle \<lparr>connect_ok = True, respond = (\<lambda>r. Response [1, 2, 3])\<rparr>
        \<lparr>execute_ok = (\<lambda>r. True), commit_ok = True\<rparr> 2 =
       [Log INFO Requesting, Connect True,
        ReadHoldingRegisters \<lparr>address = 0, count = 6, slave = 1\<rparr>,
        Log ERROR (SlaveException 1 IndexError),
        ReadHoldingRegisters \<lparr>address = 0, count = 6, slave = 2\<rparr>,
        Log ERROR (SlaveException 2 IndexError),
        UpdateRobots (Some []), Commit, Sleep 5]"
proof -
  let ?bus = "\<lparr>connect_ok = True, respond = (\<lambda>r. Response [1, 2, 3])\<rparr>"
  have e: "read_data ?bus 2 =
      ([Connect True,
        ReadHoldingRegisters \<lparr>address = 0, count = 6, slave = 1\<rparr>,
        Log ERROR (SlaveException 1 IndexError),
        ReadHoldingRegisters \<lparr>address = 0, count = 6, slave = 2\<rparr>,
        Log ERROR (SlaveException 2 IndexError)], Some [])"
    by (simp add: read_data_def read_loop.simps(2) read_slave_def store_def upto.simps
        decode_short REGISTERS_def)
  then have h: "snd (read_data ?bus 2) = Some []" by simp
  show ?thesis
    using empty_batch_reaches_sink[OF h, of "\<lparr>execute_ok = (\<lambda>r. True), commit_ok = True\<rparr>"] e
    by simp
qed

text \<open>
  C3, the code at a failed connection: no read request is issued and the connection
  error is logged, but the None that read\_data returns is handed to update\_robots,
  which raises AttributeError; the main loop logs that error and sleeps 10.
\<close>

theorem failed_connection_reaches_sink:
  "poll_cycle \<lparr>connect_ok = False, respond = (\<lambda>r. Response [7, 1, 2, 3, 4, 5])\<rparr>
     \<lparr>execute_ok = (\<lambda>r. True), commit_ok = True\<rparr> 3 =
     [Log INFO Requesting, Connect False, Log ERROR ConnectFailed,
      UpdateRobots None, Log ERROR (MainLoopError AttributeError), Sleep 10]
   \<and> sink_calls (poll_cycle \<lparr>connect_ok = False, respond = (\<lambda>r. Response [7, 1, 2, 3, 4, 5])\<rparr>
        \<lparr>execute_ok = (\<lambda>r. True), commit_ok = True\<rparr> 3) = [None]"
  by (simp add: poll_cycle_not_connected)

text \<open>
  C4, as the specification states it: a slot whose read returns fewer than
  \<open>len(REGISTERS)\<close> words gets a per-device warning. It fails: slot 1 answers with
  three words, and the log of the pass holds an error-level line for slot 1 (the
  IndexError caught by the handler of the loop body) and no warning at all.
\<close>

theorem short_response_warning_counterexample:
  "length [1, 2, 3 :: word16] < length REGISTERS
   \<and> log_lines (fst (read_data
        \<lparr>connect_ok = True,
         respond = (\<lambda>r. if slave r = 1 then Response [1, 2, 3] else Response [7, 1, 2, 3, 4, 5])\<rparr> 2)) =
       [(ERROR, SlaveException 1 IndexError),
        (INFO, SlaveData 2 [(''name'', 7), (''is_active'', 1), (''mode'', 2),
                            (''cycles_current'', 3), (''cycles_total'', 4), (''oee'', 5)])]"
  by (simp add: read_data_def read_loop.simps(2) read_slave_def store_def upto.simps
      decode_short decode_full REGISTERS_def)

text \<open>
  C4, amended: on a live connection, for every slot k from 1 to \<open>slave_count\<close>
  whose read reports a protocol error or returns fewer than \<open>len(REGISTERS)\<close>
  words: a protocol error is logged as a warning for slot k; a short response is
  logged as an error-level line for slot k (IndexError) and not as a warning; in both
  cases the pass is not aborted (the requests for all of 1 to \<open>slave_count\<close> are
  issued), the key of slot k is absent from the batch, and every slot whose read
  returned at least \<open>len(REGISTERS)\<close> words is present with its decoded block.
\<close>

theorem failed_slot_is_skipped:
  assumes "connect_ok bus" and "1 \<le> k" and "k \<le> slave_count"
    and "respond bus \<lparr>address = 0, count = length REGISTERS, slave = k\<rparr> = IsError
         \<or> (\<exists>ws. respond bus \<lparr>address = 0, count = length REGISTERS, slave = k\<rparr> = Response ws
                  \<and> length ws < length REGISTERS)"
  shows "\<exists>b. snd (read_data bus slave_count) = Some b
     \<and> (if respond bus \<lparr>address = 0, count = length REGISTERS, slave = k\<rparr> = IsError
        then (WARNING, SlaveReadError k) \<in> set (log_lines (fst (read_data bus slave_count)))
        else (ERROR, SlaveException k IndexError) \<in> set (log_lines (fst (read_data bus slave_count)))
           \<and> (WARNING, SlaveReadError k) \<notin> set (log_lines (fst (read_data bus slave_count))))
     \<and> read_requests (fst (read_data bus slave_count)) =
         map (\<lambda>i. \<lparr>address = 0, count = length REGISTERS, slave = i\<rparr>) [1..slave_count]
     \<and> map_of b (''slave_'' @ str_int k) = None
     \<and> (\<forall>j ws. 1 \<le> j \<and> j \<le> slave_count
            \<and> respond bus \<lparr>address = 0, count = length REGISTERS, slave = j\<rparr> = Response ws
            \<and> length REGISTERS \<le> length ws
          \<longrightarrow> (\<exists>d. decode_registers ws = Inr d \<and> map_of b (''slave_'' @ str_int j) = Some d))"
proof -
  let ?rq = "\<lambda>i. \<lparr>address = 0, count = length REGISTERS, slave = i\<rparr>"
  let ?log = "set (log_lines (fst (read_data bus slave_count)))"
  obtain b where b: "snd (read_data bus slave_count) = Some b"
    using assms(1) by (simp add: read_data_connected)
  have kin: "k \<in> {1..slave_count}" using assms(2,3) by simp
  have log: "?log = (\<Union>i\<in>{1..slave_count}. set (log_lines (fst (read_slave bus i))))"
    by (rule log_lines_read_data_connected[OF assms(1)])
  have nowarn: "(WARNING, SlaveReadError k) \<in> ?log \<Longrightarrow> respond bus (?rq k) = IsError"
    unfolding log using warning_in_slot_log[of k bus] by blast
  have l: "if respond bus (?rq k) = IsError
        then (WARNING, SlaveReadError k) \<in> ?log
        else (ERROR, SlaveException k IndexError) \<in> ?log \<and> (WARNING, SlaveReadError k) \<notin> ?log"
  proof (cases "respond bus (?rq k) = IsError")
    case True
    then have "(WARNING, SlaveReadError k) \<in> set (log_lines (fst (read_slave bus k)))"
      by (simp add: log_lines_read_slave)
    then show ?thesis using True kin unfolding log by auto
  next
    case False
    then obtain ws where ws: "respond bus (?rq k) = Response ws" "length ws < length REGISTERS"
      using assms(4) by auto
    have "(ERROR, SlaveException k IndexError) \<in> set (log_lines (fst (read_slave bus k)))"
      by (simp add: log_lines_read_slave ws decode_short)
    then have "(ERROR, SlaveException k IndexError) \<in> ?log" using kin unfolding log by auto
    then show ?thesis using False nowarn by auto
  qed
  have r: "read_requests (fst (read_data bus slave_count)) = map ?rq [1..slave_count]"
    by (simp add: read_data_connected[OF assms(1)] read_requests_read_loop)
  have "snd (read_slave bus k) = None"
    using assms(4) by (auto simp: snd_read_slave decode_short)
  then have absent: "map_of b (''slave_'' @ str_int k) = None"
    using batch_lookup[OF assms(1,2,3) b] by (simp add: slave_key_def)
  have others: "\<forall>j ws. 1 \<le> j \<and> j \<le> slave_count \<and> respond bus (?rq j) = Response ws
            \<and> length REGISTERS \<le> length ws
          \<longrightarrow> (\<exists>d. decode_registers ws = Inr d \<and> map_of b (''slave_'' @ str_int j) = Some d)"
  proof (intro allI impI)
    fix j ws
    assume a: "1 \<le> j \<and> j \<le> slave_count \<and> respond bus (?rq j) = Response ws
            \<and> length REGISTERS \<le> length ws"
    then obtain d where d: "decode_registers ws = Inr d" using decode_full[of ws] by simp
    then have "snd (read_slave bus j) = Some d" using a by (simp add: snd_read_slave)
    then have "map_of b (slave_key j) = Some d"
      using batch_lookup[OF assms(1) _ _ b, of j] a by simp
    then show "\<exists>d. decode_registers ws = Inr d \<and> map_of b (''slave_'' @ str_int j) = Some d"
      using d by (simp add: slave_key_def)
  qed
  show ?thesis using b l r absent others by blast
qed

theorem failed_slot_is_skipped_witness:
  "connect_ok \<lparr>connect_ok = True,
       respond = (\<lambda>r. if slave r = 2 then IsError
                      else if slave r = 3 then Response [1, 2, 3]
                      else Response [7, 1, 2, 3, 4, 5])\<rparr>
   \<and> length [1, 2, 3 :: word16] < length REGISTERS
   \<and> (\<exists>b. snd (read_data \<lparr>connect_ok = True,
                 respond = (\<lambda>r. if slave r = 2 then IsError
                                else if slave r = 3 then Response [1, 2, 3]
                                else Response [7, 1, 2, 3, 4, 5])\<rparr> 4) = Some b
          \<and> (WARNING, SlaveReadError 2) \<in> set (log_lines (fst (read_data \<lparr>connect_ok = True,
                 respond = (\<lambda>r. if slave r = 2 then IsError
                                else if slave r = 3 then Response [1, 2, 3]
                                else Response [7, 1, 2, 3, 4, 5])\<rparr> 4)))
          \<and> (ERROR, SlaveException 3 IndexError) \<in> set (log_lines (fst (read_data \<lparr>connect_ok = True,
                 respond = (\<lambda>r. if slave r = 2 then IsError
                                else if slave r = 3 then Response [1, 2, 3]
                                else Response [7, 1, 2, 3, 4, 5])\<rparr> 4)))
          \<and> (WARNING, SlaveReadError 3) \<notin> set (log_lines (fst (read_data \<lparr>connect_ok = True,
                 respond = (\<lambda>r. if slave r = 2 then IsError
                                else if slave r = 3 then Response [1, 2, 3]
                                else Response [7, 1, 2, 3, 4, 5])\<rparr> 4)))
          \<and> map_of b ''slave_2'' = None
          \<and> map_of b ''slave_3'' = None
          \<and> map_of b ''slave_4'' =
               Some [(''name'', 7), (''is_active'', 1), (''mode'', 2),
                     (''cycles_current'', 3), (''cycles_total'', 4), (''oee'', 5)])"
proof -
  let ?bus = "\<lparr>connect_ok = True,
       respond = (\<lambda>r. if slave r = 2 then IsError
                      else if slave r = 3 then Response [1, 2, 3]
                      else Response [7, 1, 2, 3, 4, 5])\<rparr>"
  have keys: "''slave_'' @ str_int 2 = ''slave_2''" "''slave_'' @ str_int 3 = ''slave_3''"
    "''slave_'' @ str_int 4 = ''slave_4''"
    by (simp_all add: str_int_def digits.simps digit_char_def)
  have short: "length [1, 2, 3 :: word16] < length REGISTERS" by (simp add: REGISTERS_def)
  have full: "decode_registers [7, 1, 2, 3, 4, 5] =
      Inr [(''name'', 7), (''is_active'', 1), (''mode'', 2),
           (''cycles_current'', 3), (''cycles_total'', 4), (''oee'', 5)]"
    by (simp add: decode_full REGISTERS_def)
  from failed_slot_is_skipped[of ?bus 2 4]
  obtain b where b: "snd (read_data ?bus 4) = Some b"
    and w2: "(WARNING, SlaveReadError 2) \<in> set (log_lines (fst (read_data ?bus 4)))"
    and a2: "map_of b (''slave_'' @ str_int 2) = None"
    by auto
  from failed_slot_is_skipped[of ?bus 3 4] b short
  have e3: "(ERROR, SlaveException 3 IndexError) \<in> set (log_lines (fst (read_data ?bus 4)))"
    and n3: "(WARNING, SlaveReadError 3) \<notin> set (log_lines (fst (read_data ?bus 4)))"
    and a3: "map_of b (''slave_'' @ str_int 3) = None"
    and others: "\<forall>j ws. 1 \<le> j \<and> j \<le> 4
            \<and> respond ?bus \<lparr>address = 0, count = length REGISTERS, slave = j\<rparr> = Response ws
            \<and> length REGISTERS \<le> length ws
          \<longrightarrow> (\<exists>d. decode_registers ws = Inr d \<and> map_of b (''slave_'' @ str_int j) = Some d)"
    by auto
  from others[rule_format, of 4 "[7, 1, 2, 3, 4, 5]"] full
  have p4: "map_of b (''slave_'' @ str_int 4) =
      Some [(''name'', 7), (''is_active'', 1), (''mode'', 2),
            (''cycles_current'', 3), (''cycles_total'', 4), (''oee'', 5)]"
    by (simp add: REGISTERS_def)
  show ?thesis
    using b w2 a2 e3 n3 a3 p4 short unfolding keys by simp
qed

text \<open>
  C5. Whatever the configured slave count, one pass of the poll loop on a live
  connection issues one register-block read per slave id, for the ids 1 to
  \<open>slave_count\<close> in increasing order and no other; each request reads
  \<open>len(REGISTERS)\<close> words from address 0. The requests of a pass number
  \<open>slave_count\<close>.
\<close>

theorem poll_cycle_issues_one_read_per_slave:
  "connect_ok bus \<Longrightarrow>
   read_requests (poll_cycle bus db slave_count) =
     map (\<lambda>i. \<lparr>address = 0, count = length REGISTERS, slave = i\<rparr>) [1..slave_count]
   \<and> length (read_requests (poll_cycle bus db slave_count)) = nat slave_count"
  by (simp add: read_requests_poll_cycle read_data_connected read_requests_read_loop)

theorem poll_cycle_issues_one_read_per_slave_witness:
  "connect_ok \<lparr>connect_ok = True, respond = (\<lambda>r. if slave r = 2 then IsError else Response [7, 1, 2, 3, 4, 5])\<rparr>
   \<and> read_requests
        (poll_cycle \<lparr>connect_ok = True, respond = (\<lambda>r. if slave r = 2 then IsError else Response [7, 1, 2, 3, 4, 5])\<rparr>
           \<lparr>execute_ok = (\<lambda>r. True), commit_ok = True\<rparr> 3) =
       [\<lparr>address = 0, count = 6, slave = 1\<rparr>, \<lparr>address = 0, count = 6, slave = 2\<rparr>,
        \<lparr>address = 0, count = 6, slave = 3\<rparr>]"
  using poll_cycle_issues_one_read_per_slave
    [of "\<lparr>connect_ok = True, respond = (\<lambda>r. if slave r = 2 then IsError else Response [7, 1, 2, 3, 4, 5])\<rparr>"
        "\<lparr>execute_ok = (\<lambda>r. True), commit_ok = True\<rparr>" 3]
  by (simp add: REGISTERS_def upto.simps)

text \<open>
  C6. For every block of \<open>len(REGISTERS)\<close> words, decoding it through the register
  map (as read\_data does) and writing each field back at its offset (the encoder of
  the specification) gives the block again.
\<close>

theorem register_map_round_trip:
  "length ws = length REGISTERS \<Longrightarrow>
   \<exists>d. decode_registers ws = Inr d \<and> encode_registers_spec d = Inr ws"
proof -
  assume "length ws = length REGISTERS"
  then obtain a b c d e f where ws: "ws = [a, b, c, d, e, f]"
    using length6[of ws] by (auto simp: REGISTERS_def)
  have "decode_registers ws =
     Inr [(''name'', a), (''is_active'', b), (''mode'', c),
          (''cycles_current'', d), (''cycles_total'', e), (''oee'', f)]"
    by (simp add: ws decode_full REGISTERS_def)
  moreover have "encode_registers_spec
     [(''name'', a), (''is_active'', b), (''mode'', c),
      (''cycles_current'', d), (''cycles_total'', e), (''oee'', f)] = Inr ws"
    by (simp add: ws encode_registers_spec_def REGISTERS_def dict_get_def eval_nat_numeral)
  ultimately show ?thesis by simp
qed

theorem register_map_round_trip_witness:
  "length [7, 1, 2, 300, 65535, 0 :: word16] = length REGISTERS
   \<and> decode_registers [7, 1, 2, 300, 65535, 0] =
       Inr [(''name'', 7), (''is_active'', 1), (''mode'', 2),
            (''cycles_current'', 300), (''cycles_total'', 65535), (''oee'', 0)]
   \<and> encode_registers_spec
        [(''name'', 7), (''is_active'', 1), (''mode'', 2),
         (''cycles_current'', 300), (''cycles_total'', 65535), (''oee'', 0)] =
       Inr [7, 1, 2, 300, 65535, 0]"
proof -
  have h: "length [7, 1, 2, 300, 65535, 0 :: word16] = length REGISTERS"
    by (simp add: REGISTERS_def)
  have d: "decode_registers [7, 1, 2, 300, 65535, 0] =
       Inr [(''name'', 7), (''is_active'', 1), (''mode'', 2),
            (''cycles_current'', 300), (''cycles_total'', 65535), (''oee'', 0)]"
    by (simp add: decode_full REGISTERS_def)
  show ?thesis
    using register_map_round_trip[OF h] h d by simp
qed

text \<open>
  C7, the code at a URI with the explicit port 0 (\<open>rtsp://cam:0/live\<close>, whose parse
  has host \<open>cam\<close> and port 0): the port is dropped from the authority of the result.
\<close>

theorem add_auth_to_url_drops_port_zero:
  "add_auth_to_url
     \<lparr>scheme = ''rtsp'', netloc = ''cam:0'', path = ''/live'', params = '''', query = '''',
      fragment = '''', hostname = Some ''cam'', port = Inr (Some 0)\<rparr> ''admin'' ''pw'' =
   Inr ''rtsp://admin:pw@cam/live''"
  by (simp add: add_auth_to_url_def auth_netloc_def str_hostname_def truthy_def geturl_def
      urlunsplit_def)

text \<open>
  C8, as the specification states it: the record decoded from a successfully read
  block has as \<open>is_active\<close> the boolean "nonzero word = true". It fails: for the
  block 7, 2, 1, 300, 65535, 0 the record that read\_data decodes, logs and returns in
  the batch holds under \<open>is_active\<close> the register word 2 itself, which is neither
  of the values 0 and 1 that Python's False and True equal.
\<close>

theorem decoded_is_active_is_raw_word_counterexample:
  "read_data \<lparr>connect_ok = True, respond = (\<lambda>r. Response [7, 2, 1, 300, 65535, 0])\<rparr> 1 =
     ([Connect True, ReadHoldingRegisters \<lparr>address = 0, count = 6, slave = 1\<rparr>,
       Log INFO (SlaveData 1 [(''name'', 7), (''is_active'', 2), (''mode'', 1),
                              (''cycles_current'', 300), (''cycles_total'', 65535), (''oee'', 0)])],
      Some [(''slave_1'', [(''name'', 7), (''is_active'', 2), (''mode'', 1),
                          (''cycles_current'', 300), (''cycles_total'', 65535), (''oee'', 0)])])
   \<and> dict_get [(''name'', 7), (''is_active'', 2 :: word16), (''mode'', 1),
               (''cycles_current'', 300), (''cycles_total'', 65535), (''oee'', 0)] ''is_active'' = Inr 2
   \<and> (2 :: word16) \<noteq> 1 \<and> (2 :: word16) \<noteq> 0"
  by (simp add: read_data_def read_loop.simps(2) read_slave_def store_def upto.simps
      decode_full REGISTERS_def slave_key_def str_int_def digits.simps digit_char_def dict_get_def)

text \<open>
  C8, amended: on a live connection, for every slot from 1 to \<open>slave_count\<close> whose
  read returns at least \<open>len(REGISTERS)\<close> words, the record that read\_data decodes
  and stores in the batch under the key of the slot holds under \<open>is_active\<close> and
  \<open>mode\<close> the raw words at the offsets the register map gives these fields; the
  pass hands that batch to update\_robots, and it is update\_robots that forms the
  boolean: the upsert record built from the decoded one has \<open>is_active\<close> true
  exactly when the word is not 0 and has as \<open>mode\<close> the word itself, a number and
  not a string; when the database accepts the statements of the pass, that record is
  executed in the pass.
\<close>

theorem upserted_is_active_and_mode:
  assumes "connect_ok bus" and "1 \<le> k" and "k \<le> slave_count"
    and "respond bus \<lparr>address = 0, count = length REGISTERS, slave = k\<rparr> = Response ws"
    and "length REGISTERS \<le> length ws"
    and "dict_get REGISTERS ''is_active'' = Inr a_off"
    and "dict_get REGISTERS ''mode'' = Inr m_off"
  shows "\<exists>b d row. snd (read_data bus slave_count) = Some b
     \<and> map_of b (''slave_'' @ str_int k) = Some d
     \<and> dict_get d ''is_active'' = Inr (ws ! a_off)
     \<and> dict_get d ''mode'' = Inr (ws ! m_off)
     \<and> UpdateRobots (Some b) \<in> set (poll_cycle bus db slave_count)
     \<and> row_of d = Inr row
     \<and> row_is_active row = (ws ! a_off \<noteq> 0)
     \<and> row_mode row = ws ! m_off
     \<and> ((\<forall>r. execute_ok db r) \<longrightarrow> Execute row \<in> set (poll_cycle bus db slave_count))"
proof -
  obtain b where b: "snd (read_data bus slave_count) = Some b"
    using assms(1) by (simp add: read_data_connected)
  obtain d where d: "decode_registers ws = Inr d" using decode_full[OF assms(5)] by simp
  have offs: "a_off = 1" "m_off = 2"
    using assms(6,7) by (simp_all add: dict_get_def REGISTERS_def)
  have dd: "d = [(''name'', ws ! 0), (''is_active'', ws ! 1), (''mode'', ws ! 2),
          (''cycles_current'', ws ! 3), (''cycles_total'', ws ! 4), (''oee'', ws ! 5)]"
    using d decode_full[OF assms(5)] by simp
  have "snd (read_slave bus k) = Some d" using assms(4) d by (simp add: snd_read_slave)
  then have look: "map_of b (''slave_'' @ str_int k) = Some d"
    using batch_lookup[OF assms(1,2,3) b] by (simp add: slave_key_def)
  let ?row = "\<lparr>row_name = ws ! 0, row_is_active = (ws ! 1 \<noteq> 0), row_mode = ws ! 2,
          row_cycles_current = ws ! 3, row_cycles_total = ws ! 4, row_oee = ws ! 5\<rparr>"
  have row: "row_of d = Inr ?row" using d by (rule row_of_decoded)
  have sub: "set (fst (update_robots db (Some b))) \<subseteq> set (poll_cycle bus db slave_count)"
    using poll_cycle_events[of db bus slave_count] b by simp
  have upd: "UpdateRobots (Some b) \<in> set (poll_cycle bus db slave_count)"
    using sub update_robots_events[of b db] by auto
  have din: "d \<in> set (map snd b)"
    using map_of_SomeD[OF look] by force
  have allrows: "\<forall>d\<in>set (map snd b). \<exists>row. row_of d = Inr row"
  proof
    fix x assume "x \<in> set (map snd b)"
    then have "x \<in> snd ` set b" by simp
    then obtain xs where "decode_registers xs = Inr x"
      using batch_values_decoded[OF assms(1) b] by blast
    then show "\<exists>row. row_of x = Inr row" using row_of_decoded by blast
  qed
  have ex: "(\<forall>r. execute_ok db r) \<longrightarrow> Execute ?row \<in> set (poll_cycle bus db slave_count)"
  proof
    assume a: "\<forall>r. execute_ok db r"
    have "Execute ?row \<in> set (fst (execute_all db (map snd b)))"
      using a allrows din row by (rule execute_all_accepting)
    then show "Execute ?row \<in> set (poll_cycle bus db slave_count)"
      using sub update_robots_events[of b db] by auto
  qed
  have "dict_get d ''is_active'' = Inr (ws ! a_off)" "dict_get d ''mode'' = Inr (ws ! m_off)"
    by (simp_all add: dd offs dict_get_def)
  moreover have "row_is_active ?row = (ws ! a_off \<noteq> 0)" "row_mode ?row = ws ! m_off"
    by (simp_all add: offs)
  ultimately show ?thesis using b look upd row ex by blast
qed

theorem upserted_is_active_and_mode_witness:
  "connect_ok \<lparr>connect_ok = True, respond = (\<lambda>r. Response [7, 2, 1, 300, 65535, 0])\<rparr>
   \<and> length REGISTERS \<le> length [7, 2, 1, 300, 65535, 0 :: word16]
   \<and> dict_get REGISTERS ''is_active'' = Inr 1
   \<and> dict_get REGISTERS ''mode'' = Inr 2
   \<and> poll_cycle \<lparr>connect_ok = True, respond = (\<lambda>r. Response [7, 2, 1, 300, 65535, 0])\<rparr>
        \<lparr>execute_ok = (\<lambda>r. True), commit_ok = True\<rparr> 1 =
      [Log INFO Requesting, Connect True,
       ReadHoldingRegisters \<lparr>address = 0, count = 6, slave = 1\<rparr>,
       Log INFO (SlaveData 1 [(''name'', 7), (''is_active'', 2), (''mode'', 1),
                              (''cycles_current'', 300), (''cycles_total'', 65535), (''oee'', 0)]),
       UpdateRobots (Some [(''slave_1'', [(''name'', 7), (''is_active'', 2), (''mode'', 1),
                          (''cycles_current'', 300), (''cycles_total'', 65535), (''oee'', 0)])]),
       Execute \<lparr>row_name = 7, row_is_active = True, row_mode = 1,
                row_cycles_current = 300, row_cycles_total = 65535, row_oee = 0\<rparr>,
       Commit, Sleep 5]
   \<and> (\<exists>b d row. snd (read_data \<lparr>connect_ok = True, respond = (\<lambda>r. Response [7, 2, 1, 300, 65535, 0])\<rparr> 1) = Some b
        \<and> map_of b ''slave_1'' = Some d
        \<and> dict_get d ''is_active'' = Inr 2
        \<and> dict_get d ''mode'' = Inr 1
        \<and> row_of d = Inr row
        \<and> row_is_active row
        \<and> row_mode row = 1
        \<and> Execute row \<in> set (poll_cycle \<lparr>connect_ok = True, respond = (\<lambda>r. Response [7, 2, 1, 300, 65535, 0])\<rparr>
              \<lparr>execute_ok = (\<lambda>r. True), commit_ok = True\<rparr> 1))"
proof -
  let ?bus = "\<lparr>connect_ok = True, respond = (\<lambda>r. Response [7, 2, 1, 300, 65535, 0])\<rparr>"
  let ?db = "\<lparr>execute_ok = (\<lambda>r. True), commit_ok = True\<rparr>"
  have h: "length REGISTERS \<le> length [7, 2, 1, 300, 65535, 0 :: word16]"
    by (simp add: REGISTERS_def)
  have a: "dict_get REGISTERS ''is_active'' = Inr 1" and m: "dict_get REGISTERS ''mode'' = Inr 2"
    by (simp_all add: REGISTERS_def dict_get_def)
  have key: "''slave_'' @ str_int 1 = ''slave_1''"
    by (simp add: str_int_def digits.simps digit_char_def)
  have p: "poll_cycle ?bus ?db 1 =
      [Log INFO Requesting, Connect True,
       ReadHoldingRegisters \<lparr>address = 0, count = 6, slave = 1\<rparr>,
       Log INFO (SlaveData 1 [(''name'', 7), (''is_active'', 2), (''mode'', 1),
                              (''cycles_current'', 300), (''cycles_total'', 65535), (''oee'', 0)]),
       UpdateRobots (Some [(''slave_1'', [(''name'', 7), (''is_active'', 2), (''mode'', 1),
                          (''cycles_current'', 300), (''cycles_total'', 65535), (''oee'', 0)])]),
       Execute \<lparr>row_name = 7, row_is_active = True, row_mode = 1,
                row_cycles_current = 300, row_cycles_total = 65535, row_oee = 0\<rparr>,
       Commit, Sleep 5]"
    by (simp add: poll_cycle_def read_data_def read_loop.simps(2) read_slave_def store_def
        upto.simps decode_full REGISTERS_def slave_key_def str_int_def digits.simps
        digit_char_def update_robots_def row_of_def dict_get_def)
  have t: "\<exists>b d row. snd (read_data ?bus 1) = Some b
        \<and> map_of b ''slave_1'' = Some d
        \<and> dict_get d ''is_active'' = Inr 2
        \<and> dict_get d ''mode'' = Inr 1
        \<and> row_of d = Inr row
        \<and> row_is_active row
        \<and> row_mode row = 1
        \<and> Execute row \<in> set (poll_cycle ?bus ?db 1)"
    using upserted_is_active_and_mode[of ?bus 1 1 "[7, 2, 1, 300, 65535, 0]" 1 2 ?db] h a m
    unfolding key by simp blast
  show ?thesis using h a m p t by simp
qed

text \<open>
  C9. Whenever a viewer session ends, by return or by exception, no capture is left
  open: either no capture was created (the resolution or the rewrite raised), or the
  trace starts with the creation of the capture and ends with its release. And when a
  frame read fails at some turn that the session reaches (every earlier turn having
  read, encoded, sent and paced), the session returns without an exception, its
  capture released.
\<close>

theorem stream_camera_read_failure_and_release:
  "(stream_camera resolved user password env turns = Some (evs, r) \<longrightarrow>
      \<not> capture_open False evs
      \<and> (evs = [] \<or> (\<exists>url. hd evs = OpenCapture url) \<and> last evs = ReleaseCapture))
   \<and> (add_auth_to_url parsed user password = Inr url
        \<and> (\<forall>j<n. delivers (env j)) \<and> cap_read (env n) = Inr (False, frm0) \<and> n < turns \<longrightarrow>
      (\<exists>evs'. stream_camera (Inr parsed) user password env turns = Some (evs', Inr ())
         \<and> hd evs' = OpenCapture url \<and> last evs' = ReleaseCapture
         \<and> \<not> capture_open False evs'))"
proof (intro conjI impI)
  assume a: "stream_camera resolved user password env turns = Some (evs, r)"
  show "\<not> capture_open False evs" using a by (rule stream_camera_releases)
  show "evs = [] \<or> (\<exists>url. hd evs = OpenCapture url) \<and> last evs = ReleaseCapture"
    using stream_camera_ends_released[OF a] by blast
next
  assume a: "add_auth_to_url parsed user password = Inr url
        \<and> (\<forall>j<n. delivers (env j)) \<and> cap_read (env n) = Inr (False, frm0) \<and> n < turns"
  then have "\<exists>evs. stream_loop env 0 turns = Some (evs, Inr ())"
    by (intro stream_loop_read_fails[where n = n and ?frm0.0 = frm0]) auto
  then obtain mid where mid: "stream_loop env 0 turns = Some (mid, Inr ())" by blast
  let ?evs = "OpenCapture url # mid @ [ReleaseCapture]"
  have s: "stream_camera (Inr parsed) user password env turns = Some (?evs, Inr ())"
    using a mid by (simp add: stream_camera_def)
  have "\<not> capture_open False ?evs" using s by (rule stream_camera_releases)
  then show "\<exists>evs'. stream_camera (Inr parsed) user password env turns = Some (evs', Inr ())
         \<and> hd evs' = OpenCapture url \<and> last evs' = ReleaseCapture
         \<and> \<not> capture_open False evs'"
    using s by (intro exI[of _ ?evs]) simp
qed

theorem stream_camera_read_failure_and_release_witness:
  "add_auth_to_url
     \<lparr>scheme = ''rtsp'', netloc = ''cam:554'', path = ''/live'', params = '''', query = '''',
      fragment = '''', hostname = Some ''cam'', port = Inr (Some 554)\<rparr> ''admin'' ''pw'' =
     Inr ''rtsp://admin:pw@cam:554/live''
   \<and> cap_read \<lparr>cap_read = Inr (2 < (2::nat), 2), imencode = Inr (), send = Inr (), pace = Inr ()\<rparr> = Inr (False, 2)
   \<and> stream_camera
       (Inr \<lparr>scheme = ''rtsp'', netloc = ''cam:554'', path = ''/live'', params = '''', query = '''',
            fragment = '''', hostname = Some ''cam'', port = Inr (Some 554)\<rparr>) ''admin'' ''pw''
       (\<lambda>i. \<lparr>cap_read = Inr (i < 2, i), imencode = Inr (), send = Inr (), pace = Inr ()\<rparr>) 3 =
     Some ([OpenCapture ''rtsp://admin:pw@cam:554/live'', WsSend 0, PaceSleep, WsSend 1, PaceSleep,
            ReleaseCapture], Inr ())
   \<and> \<not> capture_open False
        [OpenCapture ''rtsp://admin:pw@cam:554/live'', WsSend 0, PaceSleep, WsSend 1, PaceSleep,
         ReleaseCapture]
   \<and> stream_camera
       (Inr \<lparr>scheme = ''rtsp'', netloc = ''cam:554'', path = ''/live'', params = '''', query = '''',
            fragment = '''', hostname = Some ''cam'', port = Inr (Some 554)\<rparr>) ''admin'' ''pw''
       (\<lambda>i. \<lparr>cap_read = Inr (True, i), imencode = Inr (),
              send = (if i = 1 then Inl ConnectionClosed else Inr ()), pace = Inr ()\<rparr>) 3 =
     Some ([OpenCapture ''rtsp://admin:pw@cam:554/live'', WsSend 0, PaceSleep, ReleaseCapture],
           Inl ConnectionClosed)
   \<and> \<not> capture_open False
        [OpenCapture ''rtsp://admin:pw@cam:554/live'', WsSend 0, PaceSleep, ReleaseCapture]"
proof -
  let ?p = "\<lparr>scheme = ''rtsp'', netloc = ''cam:554'', path = ''/live'', params = '''', query = '''',
      fragment = '''', hostname = Some ''cam'', port = Inr (Some 554)\<rparr>"
  let ?env = "\<lambda>i::nat. \<lparr>cap_read = Inr (i < 2, i), imencode = Inr (), send = Inr (), pace = Inr ()\<rparr>"
  let ?env2 = "\<lambda>i::nat. \<lparr>cap_read = Inr (True, i), imencode = Inr (),
              send = (if i = 1 then Inl ConnectionClosed else Inr ()), pace = Inr ()\<rparr>"
  let ?url = "''rtsp://admin:pw@cam:554/live''"
  have u: "add_auth_to_url ?p ''admin'' ''pw'' = Inr ?url"
    using add_auth_to_url_components[of ?p "''cam''" "Some 554" "''admin''" "''pw''"]
    by (simp add: geturl_def urlunsplit_def str_int_def digits.simps digit_char_def)
  have d: "\<forall>j<2. delivers (?env j)" by (simp add: delivers_def)
  have f: "cap_read (?env 2) = Inr (False, 2)" by simp
  have s1: "stream_camera (Inr ?p) ''admin'' ''pw'' ?env 3 =
     Some ([OpenCapture ?url, WsSend 0, PaceSleep, WsSend 1, PaceSleep, ReleaseCapture], Inr ())"
    by (simp add: stream_camera_def u eval_nat_numeral)
  have s2: "stream_camera (Inr ?p) ''admin'' ''pw'' ?env2 3 =
     Some ([OpenCapture ?url, WsSend 0, PaceSleep, ReleaseCapture], Inl ConnectionClosed)"
    by (simp add: stream_camera_def u eval_nat_numeral)
  have t1: "\<exists>evs'. stream_camera (Inr ?p) ''admin'' ''pw'' ?env 3 = Some (evs', Inr ())
         \<and> hd evs' = OpenCapture ?url \<and> last evs' = ReleaseCapture \<and> \<not> capture_open False evs'"
    using stream_camera_read_failure_and_release
      [of "Inr ?p" "''admin''" "''pw''" ?env 3 "[]" "Inr ()" ?p ?url 2 2] u d f
    by simp
  have t2: "\<not> capture_open False [OpenCapture ?url, WsSend 0, PaceSleep, ReleaseCapture]"
    using stream_camera_read_failure_and_release
      [of "Inr ?p" "''admin''" "''pw''" ?env2 3
          "[OpenCapture ?url, WsSend 0, PaceSleep, ReleaseCapture]" "Inl ConnectionClosed"] s2
    by simp
  show ?thesis using u s1 s2 t1 t2 by simp
qed

text \<open>
  C10. read\_data returns None exactly when the connection could not be established;
  otherwise it returns a batch, possibly empty, each of whose keys is
  \<open>slave_\<close> followed by the decimal text of some id from 1 to \<open>slave_count\<close>.
  The batch is empty exactly when the connection succeeded and no slave read reached
  the assignment to \<open>all_data\<close>. The pass that hands the result to update\_robots
  ends differently for the two: after None the sink raises AttributeError, the
  main-loop error is logged and the pass sleeps 10; after an empty batch (the commit
  being accepted) the sink commits, no main-loop error is logged and the pass sleeps 5.
\<close>

theorem read_data_none_or_batch:
  "(snd (read_data bus slave_count) = None \<longleftrightarrow> \<not> connect_ok bus)
   \<and> (connect_ok bus \<longrightarrow>
        (\<exists>b. snd (read_data bus slave_count) = Some b
           \<and> (\<forall>k \<in> fst ` set b. \<exists>i. 1 \<le> i \<and> i \<le> slave_count \<and> k = ''slave_'' @ str_int i)))
   \<and> (snd (read_data bus slave_count) = Some [] \<longleftrightarrow>
        connect_ok bus \<and> (\<forall>i. 1 \<le> i \<and> i \<le> slave_count \<longrightarrow> snd (read_slave bus i) = None))
   \<and> (\<not> connect_ok bus \<longrightarrow>
        sink_calls (poll_cycle bus db slave_count) = [None]
        \<and> sleeps (poll_cycle bus db slave_count) = [10]
        \<and> (ERROR, MainLoopError AttributeError) \<in> set (log_lines (poll_cycle bus db slave_count)))
   \<and> (snd (read_data bus slave_count) = Some [] \<and> commit_ok db \<longrightarrow>
        sink_calls (poll_cycle bus db slave_count) = [Some []]
        \<and> sleeps (poll_cycle bus db slave_count) = [5]
        \<and> log_lines (poll_cycle bus db slave_count) =
            (INFO, Requesting) # log_lines (fst (read_data bus slave_count)))"
proof (intro conjI impI)
  show "snd (read_data bus slave_count) = None \<longleftrightarrow> \<not> connect_ok bus"
    by (cases "connect_ok bus") (simp_all add: read_data_connected read_data_not_connected)
next
  assume c: "connect_ok bus"
  obtain b where b: "snd (read_data bus slave_count) = Some b"
    using c by (simp add: read_data_connected)
  have "\<forall>k \<in> fst ` set b. \<exists>i. 1 \<le> i \<and> i \<le> slave_count \<and> k = ''slave_'' @ str_int i"
    unfolding batch_keys[OF c b] by (auto simp: slave_key_def)
  then show "\<exists>b. snd (read_data bus slave_count) = Some b
           \<and> (\<forall>k \<in> fst ` set b. \<exists>i. 1 \<le> i \<and> i \<le> slave_count \<and> k = ''slave_'' @ str_int i)"
    using b by blast
next
  show "snd (read_data bus slave_count) = Some [] \<longleftrightarrow>
        connect_ok bus \<and> (\<forall>i. 1 \<le> i \<and> i \<le> slave_count \<longrightarrow> snd (read_slave bus i) = None)"
  proof (cases "connect_ok bus")
    case True
    obtain b where b: "snd (read_data bus slave_count) = Some b"
      using True by (simp add: read_data_connected)
    show ?thesis using batch_empty_iff[OF True b] b True by simp
  next
    case False
    then show ?thesis by (simp add: read_data_not_connected)
  qed
next
  assume "\<not> connect_ok bus"
  then show "sink_calls (poll_cycle bus db slave_count) = [None]"
    and "sleeps (poll_cycle bus db slave_count) = [10]"
    and "(ERROR, MainLoopError AttributeError) \<in> set (log_lines (poll_cycle bus db slave_count))"
    by (simp_all add: poll_cycle_not_connected)
next
  assume a: "snd (read_data bus slave_count) = Some [] \<and> commit_ok db"
  then show "sink_calls (poll_cycle bus db slave_count) = [Some []]"
    and "sleeps (poll_cycle bus db slave_count) = [5]"
    and "log_lines (poll_cycle bus db slave_count) =
            (INFO, Requesting) # log_lines (fst (read_data bus slave_count))"
    by (simp_all add: poll_cycle_empty_batch sink_calls_append sink_calls_read_data
        sleeps_append sleeps_read_data log_lines_append)
qed

theorem read_data_none_or_batch_witness:
  "\<not> connect_ok \<lparr>connect_ok = False, respond = (\<lambda>r. Response [7, 1, 2, 3, 4, 5])\<rparr>
   \<and> snd (read_data \<lparr>connect_ok = False, respond = (\<lambda>r. Response [7, 1, 2, 3, 4, 5])\<rparr> 2) = None
   \<and> sleeps (poll_cycle \<lparr>connect_ok = False, respond = (\<lambda>r. Response [7, 1, 2, 3, 4, 5])\<rparr>
         \<lparr>execute_ok = (\<lambda>r. True), commit_ok = True\<rparr> 2) = [10]
   \<and> connect_ok \<lparr>connect_ok = True, respond = (\<lambda>r. IsError)\<rparr>
   \<and> snd (read_data \<lparr>connect_ok = True, respond = (\<lambda>r. IsError)\<rparr> 2) = Some []
   \<and> commit_ok \<lparr>execute_ok = (\<lambda>r. True), commit_ok = True\<rparr>
   \<and> sleeps (poll_cycle \<lparr>connect_ok = True, respond = (\<lambda>r. IsError)\<rparr>
         \<lparr>execute_ok = (\<lambda>r. True), commit_ok = True\<rparr> 2) = [5]
   \<and> sink_calls (poll_cycle \<lparr>connect_ok = True, respond = (\<lambda>r. IsError)\<rparr>
         \<lparr>execute_ok = (\<lambda>r. True), commit_ok = True\<rparr> 2) = [Some []]"
proof -
  let ?down = "\<lparr>connect_ok = False, respond = (\<lambda>r. Response [7, 1, 2, 3, 4, 5])\<rparr>"
  let ?mute = "\<lparr>connect_ok = True, respond = (\<lambda>r. IsError)\<rparr>"
  let ?db = "\<lparr>execute_ok = (\<lambda>r. True), commit_ok = True\<rparr>"
  have n: "\<forall>i. 1 \<le> i \<and> i \<le> 2 \<longrightarrow> snd (read_slave ?mute i) = None"
    by (simp add: snd_read_slave)
  have e: "snd (read_data ?mute 2) = Some []"
    using read_data_none_or_batch[of ?mute 2 ?db] n by simp
  show ?thesis
    using read_data_none_or_batch[of ?down 2 ?db] read_data_none_or_batch[of ?mute 2 ?db] e
    by simp
qed

end
